theory Spec2Isabelle
  imports Main
begin

section \<open>The pull protocol\<close>

text \<open>
  The library in \<^verbatim>\<open>src/generator.ts\<close> is a set of generator functions. A generator
  object is modelled as an explicit state machine: its state holds where the body is
  suspended (\<open>phase\<close>), the state of the upstream iterator it loops over, and its local
  variables. One call of \<^verbatim>\<open>next()\<close> is one application of the generator's
  \<open>_next\<close> function to the state; it runs the body up to the next \<^verbatim>\<open>yield\<close>, to
  the end, or to an exception, and returns the result of that call together with the
  state the object is left in.

  \<^item> \<open>Yield v s\<close> is \<^verbatim>\<open>{value: v, done: false}\<close>,
  \<^item> \<open>Done s\<close> is \<^verbatim>\<open>{done: true}\<close>,
  \<^item> \<open>Throw e s\<close> is the exception \<open>e\<close> leaving \<^verbatim>\<open>next()\<close>.

  A call of \<^verbatim>\<open>next()\<close> that never returns (a filter over an unbounded source that
  never accepts) is the value \<open>None\<close>.

  The suspending family has the same protocol, with \<^verbatim>\<open>next()\<close> returning a promise.
  The library never has two pulls in flight: every \<^verbatim>\<open>for await\<close> awaits the
  promise of one pull before it issues the following one. The model therefore identifies
  the promise returned by \<^verbatim>\<open>next()\<close> with the result it settles to (\<open>Throw\<close> is a
  rejection). What the suspending family awaits beyond a pull, the result of a step
  function and the elements that \<open>toAsync\<close> takes from a sequential source, is modelled
  by \<open>awaitable\<close> below.

  A generator that leaves its loop is \<open>Completed\<close> and never pulls its upstream again.
  Leaving a loop early also closes the iterator the loop runs over, through the
  \<^verbatim>\<open>return()\<close> method of the protocol when the iterator has one. In the results
  on the sequential family the iterators that a loop leaves early are array iterators,
  which have no \<^verbatim>\<open>return()\<close> method, so the sequential combinators take only
  the \<^verbatim>\<open>next()\<close> of their upstream; the suspending combinators, whose upstream
  is a generator, take its \<^verbatim>\<open>return()\<close> as well (see there).
\<close>

datatype ('e, 'a, 's) step = Yield 'a 's | Done 's | Throw 'e 's

datatype phase = Start | Suspended | Completed

datatype ('s, 'l) generator = Generator phase 's 'l

text \<open>
  An array iterator: the elements not visited yet, and a ghost counter of the
  \<^verbatim>\<open>next()\<close> calls it has received (the pulls made on the source).
\<close>

datatype 'a array_iterator = ArrayIterator (remaining: "'a list") (pulls: nat)

definition array_iter :: "'a list \<Rightarrow> 'a array_iterator" where
  "array_iter xs = ArrayIterator xs 0"

fun array_next :: "'a array_iterator \<Rightarrow> ('e, 'a, 'a array_iterator) step option" where
  "array_next (ArrayIterator [] k) = Some (Done (ArrayIterator [] (Suc k)))"
| "array_next (ArrayIterator (x # xs) k) = Some (Yield x (ArrayIterator xs (Suc k)))"

text \<open>
  The consumer: \<^verbatim>\<open>for (const v of gen) out.push(v)\<close> (the spread \<^verbatim>\<open>[...gen]\<close>
  and \<^verbatim>\<open>Array.fromAsync(gen)\<close> of the tests). It requests elements until the
  generator is done or fails, and reports what it received, how the iteration ended and
  the state the generator was left in.
\<close>

datatype 'e outcome = Returned | Threw 'e

partial_function (option) drain ::
  "('s \<Rightarrow> ('e, 'a, 's) step option) \<Rightarrow> 's \<Rightarrow> 'a list \<Rightarrow> ('a list \<times> 'e outcome \<times> 's) option" where
  "drain nxt s acc =
     (case nxt s of
        None \<Rightarrow> None
      | Some (Yield v s') \<Rightarrow> drain nxt s' (acc @ [v])
      | Some (Done s') \<Rightarrow> Some (acc, Returned, s')
      | Some (Throw e s') \<Rightarrow> Some (acc, Threw e, s'))"

text \<open>What the consumer can see of a drained generator: the elements and the outcome.\<close>

definition observed :: "('a list \<times> 'e outcome \<times> 's) option \<Rightarrow> ('a list \<times> 'e outcome) option" where
  "observed r = (case r of None \<Rightarrow> None | Some (outs, oc, s) \<Rightarrow> Some (outs, oc))"

section \<open>Sequential combinators\<close>

text \<open>
  A step function may throw: it returns \<open>Inl e\<close> for the exception \<open>e\<close> and \<open>Inr r\<close>
  for the result \<open>r\<close>. No combinator has a \<^verbatim>\<open>try\<close>, so an exception of a step
  function or of the upstream leaves \<^verbatim>\<open>next()\<close> and completes the generator.
\<close>

subsection \<open>map\<close>

definition map_gen :: "'s \<Rightarrow> ('s, unit) generator" where
  "map_gen iter = Generator Start iter ()"

fun map_next ::
  "('s \<Rightarrow> ('e, 'a, 's) step option) \<Rightarrow> ('a \<Rightarrow> 'e + 'b) \<Rightarrow> ('s, unit) generator
     \<Rightarrow> ('e, 'b, ('s, unit) generator) step option" where
  "map_next nxt fn (Generator Completed s ()) = Some (Done (Generator Completed s ()))"
| "map_next nxt fn (Generator ph s ()) =
     (case nxt s of
        None \<Rightarrow> None
      | Some (Done s') \<Rightarrow> Some (Done (Generator Completed s' ()))
      | Some (Throw e s') \<Rightarrow> Some (Throw e (Generator Completed s' ()))
      | Some (Yield v s') \<Rightarrow>
          (case fn v of
             Inl e \<Rightarrow> Some (Throw e (Generator Completed s' ()))
           | Inr u \<Rightarrow> Some (Yield u (Generator Suspended s' ()))))"

subsection \<open>filter\<close>


partial_function (option) filter_loop ::
  "('s \<Rightarrow> ('e, 'a, 's) step option) \<Rightarrow> ('a \<Rightarrow> 'e + bool) \<Rightarrow> 's
     \<Rightarrow> ('e, 'a, ('s, unit) generator) step option" where
  "filter_loop nxt predicate s =
     (case nxt s of
        None \<Rightarrow> None
      | Some (Done s') \<Rightarrow> Some (Done (Generator Completed s' ()))
      | Some (Throw e s') \<Rightarrow> Some (Throw e (Generator Completed s' ()))
      | Some (Yield v s') \<Rightarrow>
          (case predicate v of
             Inl e \<Rightarrow> Some (Throw e (Generator Completed s' ()))
           | Inr b \<Rightarrow>
               if b then Some (Yield v (Generator Suspended s' ()))
               else filter_loop nxt predicate s'))"


subsection \<open>reduce\<close>


subsection \<open>scan\<close>

text \<open>The local \<^verbatim>\<open>acc\<close> is the generator's local state.\<close>

definition scan_gen :: "'s \<Rightarrow> 'u \<Rightarrow> ('s, 'u) generator" where
  "scan_gen iter initial = Generator Start iter initial"

fun scan_next ::
  "('s \<Rightarrow> ('e, 'a, 's) step option) \<Rightarrow> ('u \<Rightarrow> 'a \<Rightarrow> 'e + 'u) \<Rightarrow> ('s, 'u) generator
     \<Rightarrow> ('e, 'u, ('s, 'u) generator) step option" where
  "scan_next nxt fn (Generator Completed s acc) = Some (Done (Generator Completed s acc))"
| "scan_next nxt fn (Generator Start s acc) = Some (Yield acc (Generator Suspended s acc))"
| "scan_next nxt fn (Generator Suspended s acc) =
     (case nxt s of
        None \<Rightarrow> None
      | Some (Done s') \<Rightarrow> Some (Done (Generator Completed s' acc))
      | Some (Throw e s') \<Rightarrow> Some (Throw e (Generator Completed s' acc))
      | Some (Yield v s') \<Rightarrow>
          (case fn acc v of
             Inl e \<Rightarrow> Some (Throw e (Generator Completed s' acc))
           | Inr a \<Rightarrow> Some (Yield a (Generator Suspended s' a))))"

subsection \<open>flatten, flatMap, concat\<close>

text \<open>
  An inner iterable is represented by the iterator it hands out when \<^verbatim>\<open>yield*\<close>
  starts iterating it (\<open>array_iter xs\<close> for an array), and \<open>inxt\<close> is the
  \<^verbatim>\<open>next()\<close> of the inner iterators. While the generator is suspended inside
  \<^verbatim>\<open>yield* inner\<close> its local state is \<open>Some\<close> of the inner iterator.
\<close>

definition flatten_gen :: "'s \<Rightarrow> ('s, 't option) generator" where
  "flatten_gen iter = Generator Start iter None"

partial_function (option) flatten_loop ::
  "('s \<Rightarrow> ('e, 't, 's) step option) \<Rightarrow> ('t \<Rightarrow> ('e, 'a, 't) step option) \<Rightarrow> 's \<Rightarrow> 't option
     \<Rightarrow> ('e, 'a, ('s, 't option) generator) step option" where
  "flatten_loop nxt inxt s cur =
     (case cur of
        Some t \<Rightarrow>
          (case inxt t of
             None \<Rightarrow> None
           | Some (Yield v t') \<Rightarrow> Some (Yield v (Generator Suspended s (Some t')))
           | Some (Done t') \<Rightarrow> flatten_loop nxt inxt s None
           | Some (Throw e t') \<Rightarrow> Some (Throw e (Generator Completed s (Some t'))))
      | None \<Rightarrow>
          (case nxt s of
             None \<Rightarrow> None
           | Some (Done s') \<Rightarrow> Some (Done (Generator Completed s' None))
           | Some (Throw e s') \<Rightarrow> Some (Throw e (Generator Completed s' None))
           | Some (Yield inner s') \<Rightarrow> flatten_loop nxt inxt s' (Some inner)))"

fun flatten_next ::
  "('s \<Rightarrow> ('e, 't, 's) step option) \<Rightarrow> ('t \<Rightarrow> ('e, 'a, 't) step option)
     \<Rightarrow> ('s, 't option) generator \<Rightarrow> ('e, 'a, ('s, 't option) generator) step option" where
  "flatten_next nxt inxt (Generator Completed s cur) = Some (Done (Generator Completed s cur))"
| "flatten_next nxt inxt (Generator ph s cur) = flatten_loop nxt inxt s cur"

definition flatMap_gen :: "'s \<Rightarrow> ('s, 't option) generator" where
  "flatMap_gen iter = Generator Start iter None"

partial_function (option) flatMap_loop ::
  "('s \<Rightarrow> ('e, 'a, 's) step option) \<Rightarrow> ('t \<Rightarrow> ('e, 'b, 't) step option) \<Rightarrow> ('a \<Rightarrow> 'e + 't)
     \<Rightarrow> 's \<Rightarrow> 't option \<Rightarrow> ('e, 'b, ('s, 't option) generator) step option" where
  "flatMap_loop nxt inxt fn s cur =
     (case cur of
        Some t \<Rightarrow>
          (case inxt t of
             None \<Rightarrow> None
           | Some (Yield v t') \<Rightarrow> Some (Yield v (Generator Suspended s (Some t')))
           | Some (Done t') \<Rightarrow> flatMap_loop nxt inxt fn s None
           | Some (Throw e t') \<Rightarrow> Some (Throw e (Generator Completed s (Some t'))))
      | None \<Rightarrow>
          (case nxt s of
             None \<Rightarrow> None
           | Some (Done s') \<Rightarrow> Some (Done (Generator Completed s' None))
           | Some (Throw e s') \<Rightarrow> Some (Throw e (Generator Completed s' None))
           | Some (Yield v s') \<Rightarrow>
               (case fn v of
                  Inl e \<Rightarrow> Some (Throw e (Generator Completed s' None))
                | Inr inner \<Rightarrow> flatMap_loop nxt inxt fn s' (Some inner))))"

fun flatMap_next ::
  "('s \<Rightarrow> ('e, 'a, 's) step option) \<Rightarrow> ('t \<Rightarrow> ('e, 'b, 't) step option) \<Rightarrow> ('a \<Rightarrow> 'e + 't)
     \<Rightarrow> ('s, 't option) generator \<Rightarrow> ('e, 'b, ('s, 't option) generator) step option" where
  "flatMap_next nxt inxt fn (Generator Completed s cur) =
     Some (Done (Generator Completed s cur))"
| "flatMap_next nxt inxt fn (Generator ph s cur) = flatMap_loop nxt inxt fn s cur"




subsection \<open>filterMap\<close>

text \<open>
  The result of the transform is tested with \<^verbatim>\<open>result != null\<close>, the loose
  inequality of JavaScript: it is false for \<^verbatim>\<open>null\<close> and for \<^verbatim>\<open>undefined\<close>
  and true for every other value, the falsy ones included.
\<close>

datatype jsval = JNull | JUndefined | JBoolean bool | JNumber int | JString string

fun loose_neq_null :: "jsval \<Rightarrow> bool" where
  "loose_neq_null JNull = False"
| "loose_neq_null JUndefined = False"
| "loose_neq_null v = True"

definition filterMap_gen :: "'s \<Rightarrow> ('s, unit) generator" where
  "filterMap_gen iter = Generator Start iter ()"

partial_function (option) filterMap_loop ::
  "('s \<Rightarrow> ('e, 'a, 's) step option) \<Rightarrow> ('a \<Rightarrow> 'e + jsval) \<Rightarrow> 's
     \<Rightarrow> ('e, jsval, ('s, unit) generator) step option" where
  "filterMap_loop nxt fn s =
     (case nxt s of
        None \<Rightarrow> None
      | Some (Done s') \<Rightarrow> Some (Done (Generator Completed s' ()))
      | Some (Throw e s') \<Rightarrow> Some (Throw e (Generator Completed s' ()))
      | Some (Yield v s') \<Rightarrow>
          (case fn v of
             Inl e \<Rightarrow> Some (Throw e (Generator Completed s' ()))
           | Inr result \<Rightarrow>
               if loose_neq_null result then Some (Yield result (Generator Suspended s' ()))
               else filterMap_loop nxt fn s'))"

fun filterMap_next ::
  "('s \<Rightarrow> ('e, 'a, 's) step option) \<Rightarrow> ('a \<Rightarrow> 'e + jsval) \<Rightarrow> ('s, unit) generator
     \<Rightarrow> ('e, jsval, ('s, unit) generator) step option" where
  "filterMap_next nxt fn (Generator Completed s ()) = Some (Done (Generator Completed s ()))"
| "filterMap_next nxt fn (Generator ph s ()) = filterMap_loop nxt fn s"

subsection \<open>take\<close>

text \<open>
  The local \<^verbatim>\<open>count\<close> is the generator's local state. Resuming after the
  \<^verbatim>\<open>yield\<close> first runs \<^verbatim>\<open>count++\<close>; then, as at the start, the loop header
  pulls the upstream, and only then the body tests \<^verbatim>\<open>count >= n\<close>.
\<close>

definition take_gen :: "'s \<Rightarrow> ('s, int) generator" where
  "take_gen iter = Generator Start iter 0"

fun take_pull ::
  "('s \<Rightarrow> ('e, 'a, 's) step option) \<Rightarrow> int \<Rightarrow> 's \<Rightarrow> int
     \<Rightarrow> ('e, 'a, ('s, int) generator) step option" where
  "take_pull nxt n s count =
     (case nxt s of
        None \<Rightarrow> None
      | Some (Done s') \<Rightarrow> Some (Done (Generator Completed s' count))
      | Some (Throw e s') \<Rightarrow> Some (Throw e (Generator Completed s' count))
      | Some (Yield v s') \<Rightarrow>
          if count \<ge> n then Some (Done (Generator Completed s' count))
          else Some (Yield v (Generator Suspended s' count)))"

fun take_next ::
  "('s \<Rightarrow> ('e, 'a, 's) step option) \<Rightarrow> int \<Rightarrow> ('s, int) generator
     \<Rightarrow> ('e, 'a, ('s, int) generator) step option" where
  "take_next nxt n (Generator Completed s count) = Some (Done (Generator Completed s count))"
| "take_next nxt n (Generator Start s count) = take_pull nxt n s count"
| "take_next nxt n (Generator Suspended s count) = take_pull nxt n s (count + 1)"

subsection \<open>takeWhile\<close>

definition takeWhile_gen :: "'s \<Rightarrow> ('s, unit) generator" where
  "takeWhile_gen iter = Generator Start iter ()"

fun takeWhile_next ::
  "('s \<Rightarrow> ('e, 'a, 's) step option) \<Rightarrow> ('a \<Rightarrow> 'e + bool) \<Rightarrow> ('s, unit) generator
     \<Rightarrow> ('e, 'a, ('s, unit) generator) step option" where
  "takeWhile_next nxt predicate (Generator Completed s ()) =
     Some (Done (Generator Completed s ()))"
| "takeWhile_next nxt predicate (Generator ph s ()) =
     (case nxt s of
        None \<Rightarrow> None
      | Some (Done s') \<Rightarrow> Some (Done (Generator Completed s' ()))
      | Some (Throw e s') \<Rightarrow> Some (Throw e (Generator Completed s' ()))
      | Some (Yield v s') \<Rightarrow>
          (case predicate v of
             Inl e \<Rightarrow> Some (Throw e (Generator Completed s' ()))
           | Inr b \<Rightarrow>
               if \<not> b then Some (Done (Generator Completed s' ()))
               else Some (Yield v (Generator Suspended s' ()))))"

subsection \<open>dedupe\<close>

text \<open>The set \<^verbatim>\<open>seen\<close> is the generator's local state.\<close>

definition dedupe_gen :: "'s \<Rightarrow> ('s, string set) generator" where
  "dedupe_gen iter = Generator Start iter {}"

partial_function (option) dedupe_loop ::
  "('s \<Rightarrow> ('e, 'a, 's) step option) \<Rightarrow> ('a \<Rightarrow> 'e + string) \<Rightarrow> 's \<Rightarrow> string set
     \<Rightarrow> ('e, 'a, ('s, string set) generator) step option" where
  "dedupe_loop nxt getKey s seen =
     (case nxt s of
        None \<Rightarrow> None
      | Some (Done s') \<Rightarrow> Some (Done (Generator Completed s' seen))
      | Some (Throw e s') \<Rightarrow> Some (Throw e (Generator Completed s' seen))
      | Some (Yield v s') \<Rightarrow>
          (case getKey v of
             Inl e \<Rightarrow> Some (Throw e (Generator Completed s' seen))
           | Inr key \<Rightarrow>
               if key \<notin> seen then Some (Yield v (Generator Suspended s' (insert key seen)))
               else dedupe_loop nxt getKey s' seen))"

fun dedupe_next ::
  "('s \<Rightarrow> ('e, 'a, 's) step option) \<Rightarrow> ('a \<Rightarrow> 'e + string) \<Rightarrow> ('s, string set) generator
     \<Rightarrow> ('e, 'a, ('s, string set) generator) step option" where
  "dedupe_next nxt getKey (Generator Completed s seen) =
     Some (Done (Generator Completed s seen))"
| "dedupe_next nxt getKey (Generator ph s seen) = dedupe_loop nxt getKey s seen"

section \<open>Suspending combinators\<close>

text \<open>
  \<^verbatim>\<open>Awaitable<T>\<close> is \<^verbatim>\<open>Promise<T> | T\<close>: a plain value, or a promise that is
  fulfilled with a value or rejected with an error. \<^verbatim>\<open>await\<close> of a plain value or
  of a fulfilled promise is the value; \<^verbatim>\<open>await\<close> of a rejected promise throws.
  \<open>await_call\<close> is \<^verbatim>\<open>await fn(value)\<close>: the call itself may throw before
  there is anything to await.
\<close>

datatype ('e, 'r) promise = Fulfilled 'r | Rejected 'e

datatype ('e, 'r) awaitable = Now 'r | Later "('e, 'r) promise"

fun await :: "('e, 'r) awaitable \<Rightarrow> 'e + 'r" where
  "await (Now r) = Inr r"
| "await (Later (Fulfilled r)) = Inr r"
| "await (Later (Rejected e)) = Inl e"

definition await_call :: "'e + ('e, 'r) awaitable \<Rightarrow> 'e + 'r" where
  "await_call called = (case called of Inl e \<Rightarrow> Inl e | Inr a \<Rightarrow> await a)"


subsection \<open>Closing an iterator\<close>

text \<open>
  A \<^verbatim>\<open>for await\<close> loop that is left by \<^verbatim>\<open>break\<close> or by an exception thrown in
  its body calls \<^verbatim>\<open>return()\<close> on the iterator it loops over, when the iterator has
  that method (it does not when the exception came out of the iterator's own
  \<^verbatim>\<open>next()\<close>). Every suspending combinator therefore takes, beside the
  \<^verbatim>\<open>next()\<close> of its upstream, the upstream's \<^verbatim>\<open>return()\<close> as \<open>ret\<close>, a
  function on the upstream's state.

  An array iterator has no \<^verbatim>\<open>return()\<close> method: closing it changes nothing. A
  generator object whose body is one loop with the \<^verbatim>\<open>yield\<close> inside it is closed
  as follows: before its first \<^verbatim>\<open>next()\<close> it completes without running its body;
  suspended at the \<^verbatim>\<open>yield\<close> it leaves its loop, which closes its own upstream, and
  completes; completed, it stays as it is.
\<close>

definition array_return :: "'a array_iterator \<Rightarrow> 'a array_iterator" where
  "array_return s = s"

subsection \<open>toAsync\<close>

text \<open>
  \<^verbatim>\<open>for await\<close> over a sequential iterable (and \<^verbatim>\<open>yield*\<close> of one inside an
  async generator) goes through the language's async-from-sync iterator: every element the
  sequential iterator delivers is awaited. An element that is a fulfilled promise is
  delivered as the value it is fulfilled with; an element that is a rejected promise makes
  the pull throw, and the sequential iterator is closed. The elements of the sequential
  source of \<open>toAsync\<close> are therefore values that may be promises.
\<close>

fun from_sync_next ::
  "('s \<Rightarrow> ('e, ('e, 'a) awaitable, 's) step option) \<Rightarrow> ('s \<Rightarrow> 's) \<Rightarrow> 's
     \<Rightarrow> ('e, 'a, 's) step option" where
  "from_sync_next nxt ret s =
     (case nxt s of
        None \<Rightarrow> None
      | Some (Done s') \<Rightarrow> Some (Done s')
      | Some (Throw e s') \<Rightarrow> Some (Throw e s')
      | Some (Yield v s') \<Rightarrow>
          (case await v of
             Inl e \<Rightarrow> Some (Throw e (ret s'))
           | Inr a \<Rightarrow> Some (Yield a s')))"

definition toAsync_gen :: "'s \<Rightarrow> ('s, unit) generator" where
  "toAsync_gen iter = Generator Start iter ()"

fun toAsync_next ::
  "('s \<Rightarrow> ('e, ('e, 'a) awaitable, 's) step option) \<Rightarrow> ('s \<Rightarrow> 's) \<Rightarrow> ('s, unit) generator
     \<Rightarrow> ('e, 'a, ('s, unit) generator) step option" where
  "toAsync_next nxt ret (Generator Completed s ()) = Some (Done (Generator Completed s ()))"
| "toAsync_next nxt ret (Generator ph s ()) =
     (case from_sync_next nxt ret s of
        None \<Rightarrow> None
      | Some (Done s') \<Rightarrow> Some (Done (Generator Completed s' ()))
      | Some (Throw e s') \<Rightarrow> Some (Throw e (Generator Completed s' ()))
      | Some (Yield v s') \<Rightarrow> Some (Yield v (Generator Suspended s' ())))"

fun toAsync_return :: "('s \<Rightarrow> 's) \<Rightarrow> ('s, unit) generator \<Rightarrow> ('s, unit) generator" where
  "toAsync_return ret (Generator Completed s ()) = Generator Completed s ()"
| "toAsync_return ret (Generator Start s ()) = Generator Completed s ()"
| "toAsync_return ret (Generator Suspended s ()) = Generator Completed (ret s) ()"

subsection \<open>mapAsync\<close>



subsection \<open>filterAsync\<close>




subsection \<open>reduceAsync\<close>


subsection \<open>scanAsync\<close>



subsection \<open>flattenAsync, flatMapAsync, concatAsync\<close>










subsection \<open>filterMapAsync\<close>

definition filterMapAsync_gen :: "'s \<Rightarrow> ('s, unit) generator" where
  "filterMapAsync_gen iter = Generator Start iter ()"

partial_function (option) filterMapAsync_loop ::
  "('s \<Rightarrow> ('e, 'a, 's) step option) \<Rightarrow> ('s \<Rightarrow> 's) \<Rightarrow> ('a \<Rightarrow> 'e + ('e, jsval) awaitable) \<Rightarrow> 's
     \<Rightarrow> ('e, jsval, ('s, unit) generator) step option" where
  "filterMapAsync_loop nxt ret fn s =
     (case nxt s of
        None \<Rightarrow> None
      | Some (Done s') \<Rightarrow> Some (Done (Generator Completed s' ()))
      | Some (Throw e s') \<Rightarrow> Some (Throw e (Generator Completed s' ()))
      | Some (Yield v s') \<Rightarrow>
          (case await_call (fn v) of
             Inl e \<Rightarrow> Some (Throw e (Generator Completed (ret s') ()))
           | Inr result \<Rightarrow>
               if loose_neq_null result then Some (Yield result (Generator Suspended s' ()))
               else filterMapAsync_loop nxt ret fn s'))"

fun filterMapAsync_next ::
  "('s \<Rightarrow> ('e, 'a, 's) step option) \<Rightarrow> ('s \<Rightarrow> 's) \<Rightarrow> ('a \<Rightarrow> 'e + ('e, jsval) awaitable) \<Rightarrow> ('s, unit) generator
     \<Rightarrow> ('e, jsval, ('s, unit) generator) step option" where
  "filterMapAsync_next nxt ret fn (Generator Completed s ()) = Some (Done (Generator Completed s ()))"
| "filterMapAsync_next nxt ret fn (Generator ph s ()) = filterMapAsync_loop nxt ret fn s"

subsection \<open>takeAsync\<close>




subsection \<open>takeWhileAsync\<close>



subsection \<open>dedupeAsync\<close>




section \<open>Vocabulary of the results\<close>

text \<open>
  The notions below are not part of the library. They name, in terms of list functions, what
  the results about the generators say.
\<close>

text \<open>
  The step function returns on \<open>v\<close> (it does not throw).
\<close>

abbreviation returns :: "('a \<Rightarrow> 'e + 'r) \<Rightarrow> 'a \<Rightarrow> bool" where
  "returns fn v \<equiv> \<not> isl (fn v)"

text \<open>
  How a run over the array \<open>xs\<close> ends when every element is handed to the step function:
  normally, or with the exception thrown on the first element on which it throws.
\<close>

abbreviation ending :: "('a \<Rightarrow> 'e + 'r) \<Rightarrow> 'a list \<Rightarrow> 'e outcome" where
  "ending fn xs \<equiv>
     (case dropWhile (returns fn) xs of [] \<Rightarrow> Returned | v # rest \<Rightarrow> Threw (projl (fn v)))"

text \<open>
  The array iterator after a run that pulled the elements satisfying \<open>ok\<close> and one pull more
  (the element that stopped the run, or the pull that found the array exhausted).
\<close>

abbreviation stopped :: "('a \<Rightarrow> bool) \<Rightarrow> 'a list \<Rightarrow> nat \<Rightarrow> 'a array_iterator" where
  "stopped ok xs k \<equiv> ArrayIterator (tl (dropWhile ok xs)) (Suc (k + length (takeWhile ok xs)))"

text \<open>The predicate returns \<^verbatim>\<open>true\<close> on \<open>v\<close>.\<close>

abbreviation accepts :: "('a \<Rightarrow> 'e + bool) \<Rightarrow> 'a \<Rightarrow> bool" where
  "accepts p v \<equiv> p v = Inr True"

text \<open>
  The elements of \<open>xs\<close> whose key is not in \<open>S\<close> and is not the key of an earlier element
  of \<open>xs\<close>, in the order of \<open>xs\<close>.
\<close>

definition first_per_key :: "('a \<Rightarrow> string) \<Rightarrow> string set \<Rightarrow> 'a list \<Rightarrow> 'a list" where
  "first_per_key key S xs =
     map (\<lambda>i. xs ! i) (filter (\<lambda>i. key (xs ! i) \<notin> S \<union> key ` set (take i xs)) [0..<length xs])"


text \<open>The step function of a suspending combinator, with its result awaited.\<close>

abbreviation awaited :: "('a \<Rightarrow> 'e + ('e, 'r) awaitable) \<Rightarrow> 'a \<Rightarrow> 'e + 'r" where
  "awaited g v \<equiv> await_call (g v)"

text \<open>
  An array of plain values, as an iterable whose elements may be promises but are not.
\<close>

definition plain_array :: "'a list \<Rightarrow> ('e, 'a) awaitable array_iterator" where
  "plain_array ys = array_iter (map Now ys)"

text \<open>
  The generator \<^verbatim>\<open>toAsync(array)\<close> over an array of plain values: its
  \<^verbatim>\<open>next()\<close> and \<^verbatim>\<open>return()\<close>; the generator suspended at its
  \<^verbatim>\<open>yield\<close> with the elements \<open>xs\<close> of the array still to visit; and the
  generator completed (the array exhausted, or the generator closed) with \<open>xs\<close> still
  unvisited. \<open>halted ok xs k\<close> is the completed generator after a run that pulled the
  elements satisfying \<open>ok\<close> and one pull more.
\<close>

abbreviation promoted_next ::
  "(('e, 'a) awaitable array_iterator, unit) generator
     \<Rightarrow> ('e, 'a, (('e, 'a) awaitable array_iterator, unit) generator) step option" where
  "promoted_next \<equiv> toAsync_next array_next array_return"

abbreviation promoted_return ::
  "(('e, 'a) awaitable array_iterator, unit) generator
     \<Rightarrow> (('e, 'a) awaitable array_iterator, unit) generator" where
  "promoted_return \<equiv> toAsync_return array_return"

abbreviation promoted :: "'a list \<Rightarrow> nat \<Rightarrow> (('e, 'a) awaitable array_iterator, unit) generator" where
  "promoted xs k \<equiv> Generator Suspended (ArrayIterator (map Now xs) k) ()"

abbreviation closed :: "'a list \<Rightarrow> nat \<Rightarrow> (('e, 'a) awaitable array_iterator, unit) generator" where
  "closed xs k \<equiv> Generator Completed (ArrayIterator (map Now xs) k) ()"

abbreviation halted ::
  "('a \<Rightarrow> bool) \<Rightarrow> 'a list \<Rightarrow> nat \<Rightarrow> (('e, 'a) awaitable array_iterator, unit) generator" where
  "halted ok xs k \<equiv> closed (tl (dropWhile ok xs)) (Suc (k + length (takeWhile ok xs)))"


section \<open>Draining a generator, one request at a time\<close>

lemma drain_Yield: "nxt s = Some (Yield v s') \<Longrightarrow> drain nxt s acc = drain nxt s' (acc @ [v])"
  by (subst drain.simps) simp

lemma drain_Done: "nxt s = Some (Done s') \<Longrightarrow> drain nxt s acc = Some (acc, Returned, s')"
  by (subst drain.simps) simp

lemma drain_Throw: "nxt s = Some (Throw e s') \<Longrightarrow> drain nxt s acc = Some (acc, Threw e, s')"
  by (subst drain.simps) simp

lemma drain_same: "nxt s = nxt s' \<Longrightarrow> drain nxt s acc = drain nxt s' acc"
  by (simp add: drain.simps [of nxt s] drain.simps [of nxt s'])

section \<open>The generators over an array\<close>

lemma take_resume:
  "take_next nxt n (Generator Suspended s c) = take_next nxt n (Generator Start s (c + 1))"
  by simp

lemma take_drain_start:
  "drain (take_next array_next n) (Generator Start (ArrayIterator xs k) c) acc =
     Some (acc @ take (nat (n - c)) xs, Returned,
           Generator Completed
             (ArrayIterator (drop (Suc (nat (n - c))) xs) (Suc (k + min (nat (n - c)) (length xs))))
             (c + int (min (nat (n - c)) (length xs))))"
proof (induction xs arbitrary: k c acc)
  case Nil
  show ?case by (simp add: drain_Done)
next
  case (Cons x xs)
  show ?case
  proof (cases "c \<ge> n")
    case True
    then show ?thesis by (simp add: drain_Done)
  next
    case False
    then have step: "take_next array_next n (Generator Start (ArrayIterator (x # xs) k) c)
        = Some (Yield x (Generator Suspended (ArrayIterator xs (Suc k)) c))"
      by simp
    have nat_eq: "nat (n - c) = Suc (nat (n - (c + 1)))"
      using False by simp
    show ?thesis
      unfolding drain_Yield [of "take_next array_next n", OF step]
        drain_same [of "take_next array_next n", OF take_resume] Cons.IH nat_eq
      by simp
  qed
qed





lemma takeWhile_drain:
  "drain (takeWhile_next array_next p) (Generator Suspended (ArrayIterator xs k) ()) acc =
     Some (acc @ takeWhile (accepts p) xs,
           (case dropWhile (accepts p) xs of
              [] \<Rightarrow> Returned
            | v # rest \<Rightarrow> (case p v of Inl e \<Rightarrow> Threw e | Inr b \<Rightarrow> Returned)),
           Generator Completed (stopped (accepts p) xs k) ())"
proof (induction xs arbitrary: k acc)
  case Nil
  show ?case by (simp add: drain_Done)
next
  case (Cons x xs)
  let ?N = "takeWhile_next array_next p"
  show ?case
  proof (cases "p x")
    case (Inl e)
    then have step: "?N (Generator Suspended (ArrayIterator (x # xs) k) ())
        = Some (Throw e (Generator Completed (ArrayIterator xs (Suc k)) ()))"
      by simp
    show ?thesis
      unfolding drain_Throw [of ?N, OF step] using Inl by simp
  next
    case (Inr b)
    show ?thesis
    proof (cases b)
      case True
      with Inr have step: "?N (Generator Suspended (ArrayIterator (x # xs) k) ())
          = Some (Yield x (Generator Suspended (ArrayIterator xs (Suc k)) ()))"
        by simp
      show ?thesis
        unfolding drain_Yield [of ?N, OF step] Cons.IH using Inr True by simp
    next
      case False
      with Inr have step: "?N (Generator Suspended (ArrayIterator (x # xs) k) ())
          = Some (Done (Generator Completed (ArrayIterator xs (Suc k)) ()))"
        by simp
      show ?thesis
        unfolding drain_Done [of ?N, OF step] using Inr False by simp
    qed
  qed
qed

lemma filterMap_loop_Nil:
  "filterMap_loop array_next fn (ArrayIterator [] k)
     = Some (Done (Generator Completed (ArrayIterator [] (Suc k)) ()))"
  by (subst filterMap_loop.simps) simp

lemma filterMap_loop_Cons:
  "filterMap_loop array_next fn (ArrayIterator (x # xs) k) =
     (case fn x of
        Inl e \<Rightarrow> Some (Throw e (Generator Completed (ArrayIterator xs (Suc k)) ()))
      | Inr r \<Rightarrow>
          if loose_neq_null r then Some (Yield r (Generator Suspended (ArrayIterator xs (Suc k)) ()))
          else filterMap_loop array_next fn (ArrayIterator xs (Suc k)))"
  by (subst filterMap_loop.simps) simp

lemma filterMap_drain:
  "drain (filterMap_next array_next fn) (Generator Suspended (ArrayIterator xs k) ()) acc =
     Some (acc @ filter loose_neq_null (map (\<lambda>v. projr (fn v)) (takeWhile (returns fn) xs)),
           ending fn xs, Generator Completed (stopped (returns fn) xs k) ())"
proof (induction xs arbitrary: k acc)
  case Nil
  show ?case by (simp add: drain_Done filterMap_loop_Nil)
next
  case (Cons x xs)
  let ?N = "filterMap_next array_next fn"
  show ?case
  proof (cases "fn x")
    case (Inl e)
    then have step: "?N (Generator Suspended (ArrayIterator (x # xs) k) ())
        = Some (Throw e (Generator Completed (ArrayIterator xs (Suc k)) ()))"
      by (simp add: filterMap_loop_Cons)
    show ?thesis
      unfolding drain_Throw [of ?N, OF step] using Inl by simp
  next
    case (Inr r)
    show ?thesis
    proof (cases "loose_neq_null r")
      case True
      with Inr have step: "?N (Generator Suspended (ArrayIterator (x # xs) k) ())
          = Some (Yield r (Generator Suspended (ArrayIterator xs (Suc k)) ()))"
        by (simp add: filterMap_loop_Cons)
      show ?thesis
        unfolding drain_Yield [of ?N, OF step] Cons.IH using Inr True by simp
    next
      case False
      with Inr have step: "?N (Generator Suspended (ArrayIterator (x # xs) k) ())
          = ?N (Generator Suspended (ArrayIterator xs (Suc k)) ())"
        by (simp add: filterMap_loop_Cons)
      show ?thesis
        unfolding drain_same [of ?N, OF step] Cons.IH using Inr False by simp
    qed
  qed
qed

lemma first_per_key_Nil: "first_per_key key S [] = []"
  by (simp add: first_per_key_def)

lemma first_per_key_Cons:
  "first_per_key key S (x # xs) =
     (if key x \<in> S then first_per_key key S xs else x # first_per_key key (insert (key x) S) xs)"
proof -
  have upt: "[0..<length (x # xs)] = 0 # map Suc [0..<length xs]"
    by (simp add: upt_conv_Cons map_Suc_upt del: upt_Suc)
  have "first_per_key key S (x # xs) =
      (if key x \<in> S then [] else [x]) @ first_per_key key (insert (key x) S) xs"
    unfolding first_per_key_def upt
    by (simp add: filter_map comp_def conj_commute conj_left_commute)
  then show ?thesis
    by (simp add: insert_absorb)
qed

lemma dedupe_loop_Nil:
  "dedupe_loop array_next getKey (ArrayIterator [] k) S
     = Some (Done (Generator Completed (ArrayIterator [] (Suc k)) S))"
  by (subst dedupe_loop.simps) simp

lemma dedupe_loop_Cons:
  "dedupe_loop array_next getKey (ArrayIterator (x # xs) k) S =
     (case getKey x of
        Inl e \<Rightarrow> Some (Throw e (Generator Completed (ArrayIterator xs (Suc k)) S))
      | Inr key \<Rightarrow>
          if key \<notin> S then Some (Yield x (Generator Suspended (ArrayIterator xs (Suc k)) (insert key S)))
          else dedupe_loop array_next getKey (ArrayIterator xs (Suc k)) S)"
  by (subst dedupe_loop.simps) simp

lemma dedupe_drain:
  "drain (dedupe_next array_next getKey) (Generator Suspended (ArrayIterator xs k) S) acc =
     Some (acc @ first_per_key (\<lambda>v. projr (getKey v)) S (takeWhile (returns getKey) xs),
           ending getKey xs,
           Generator Completed (stopped (returns getKey) xs k)
             (S \<union> (\<lambda>v. projr (getKey v)) ` set (takeWhile (returns getKey) xs)))"
proof (induction xs arbitrary: k acc S)
  case Nil
  show ?case by (simp add: drain_Done dedupe_loop_Nil first_per_key_Nil)
next
  case (Cons x xs)
  let ?N = "dedupe_next array_next getKey"
  show ?case
  proof (cases "getKey x")
    case (Inl e)
    then have step: "?N (Generator Suspended (ArrayIterator (x # xs) k) S)
        = Some (Throw e (Generator Completed (ArrayIterator xs (Suc k)) S))"
      by (simp add: dedupe_loop_Cons)
    show ?thesis
      unfolding drain_Throw [of ?N, OF step] using Inl by (simp add: first_per_key_Nil)
  next
    case (Inr key)
    have tw: "takeWhile (returns getKey) (x # xs) = x # takeWhile (returns getKey) xs"
      using Inr by simp
    show ?thesis
    proof (cases "key \<in> S")
      case False
      with Inr have step: "?N (Generator Suspended (ArrayIterator (x # xs) k) S)
          = Some (Yield x (Generator Suspended (ArrayIterator xs (Suc k)) (insert key S)))"
        by (simp add: dedupe_loop_Cons)
      show ?thesis
        unfolding drain_Yield [of ?N, OF step] Cons.IH tw
        using Inr False by (simp add: first_per_key_Cons)
    next
      case True
      with Inr have step: "?N (Generator Suspended (ArrayIterator (x # xs) k) S)
          = ?N (Generator Suspended (ArrayIterator xs (Suc k)) S)"
        by (simp add: dedupe_loop_Cons)
      show ?thesis
        unfolding drain_same [of ?N, OF step] Cons.IH tw
        using Inr True by (simp add: first_per_key_Cons insert_absorb)
    qed
  qed
qed

lemma flatMap_loop_Some:
  "flatMap_loop nxt inxt fn s (Some t) =
     (case inxt t of
        None \<Rightarrow> None
      | Some (Yield v t') \<Rightarrow> Some (Yield v (Generator Suspended s (Some t')))
      | Some (Done t') \<Rightarrow> flatMap_loop nxt inxt fn s None
      | Some (Throw e t') \<Rightarrow> Some (Throw e (Generator Completed s (Some t'))))"
  by (subst flatMap_loop.simps) simp

lemma flatMap_loop_None:
  "flatMap_loop nxt inxt fn s None =
     (case nxt s of
        None \<Rightarrow> None
      | Some (Done s') \<Rightarrow> Some (Done (Generator Completed s' None))
      | Some (Throw e s') \<Rightarrow> Some (Throw e (Generator Completed s' None))
      | Some (Yield v s') \<Rightarrow>
          (case fn v of
             Inl e \<Rightarrow> Some (Throw e (Generator Completed s' None))
           | Inr inner \<Rightarrow> flatMap_loop nxt inxt fn s' (Some inner)))"
  by (subst flatMap_loop.simps) simp

lemma flatMap_drain_inner:
  "drain (flatMap_next nxt array_next fn) (Generator Suspended s (Some (ArrayIterator ys j))) acc =
   drain (flatMap_next nxt array_next fn) (Generator Suspended s None) (acc @ ys)"
proof (induction ys arbitrary: j acc)
  case Nil
  let ?N = "flatMap_next nxt array_next fn"
  have step: "?N (Generator Suspended s (Some (ArrayIterator [] j))) = ?N (Generator Suspended s None)"
    by (simp add: flatMap_loop_Some)
  show ?case
    unfolding drain_same [of ?N, OF step] by simp
next
  case (Cons y ys)
  let ?N = "flatMap_next nxt array_next fn"
  have step: "?N (Generator Suspended s (Some (ArrayIterator (y # ys) j)))
      = Some (Yield y (Generator Suspended s (Some (ArrayIterator ys (Suc j)))))"
    by (simp add: flatMap_loop_Some)
  show ?case
    unfolding drain_Yield [of ?N, OF step] Cons.IH by simp
qed

lemma flatMap_drain:
  "drain (flatMap_next array_next array_next fn) (Generator Suspended (ArrayIterator xs k) None) acc =
     Some (acc @ concat (map (\<lambda>v. remaining (projr (fn v))) (takeWhile (returns fn) xs)),
           ending fn xs, Generator Completed (stopped (returns fn) xs k) None)"
proof (induction xs arbitrary: k acc)
  case Nil
  show ?case by (simp add: drain_Done flatMap_loop_None)
next
  case (Cons x xs)
  let ?N = "flatMap_next array_next array_next fn"
  show ?case
  proof (cases "fn x")
    case (Inl e)
    then have step: "?N (Generator Suspended (ArrayIterator (x # xs) k) None)
        = Some (Throw e (Generator Completed (ArrayIterator xs (Suc k)) None))"
      by (simp add: flatMap_loop_None)
    show ?thesis
      unfolding drain_Throw [of ?N, OF step] using Inl by simp
  next
    case (Inr t)
    obtain ys j where t: "t = ArrayIterator ys j" by (cases t)
    from Inr have step: "?N (Generator Suspended (ArrayIterator (x # xs) k) None)
        = ?N (Generator Suspended (ArrayIterator xs (Suc k)) (Some t))"
      by (simp add: flatMap_loop_None)
    show ?thesis
      unfolding drain_same [of ?N, OF step] t flatMap_drain_inner Cons.IH
      using Inr t by simp
  qed
qed

lemma flatten_loop_Some:
  "flatten_loop nxt inxt s (Some t) =
     (case inxt t of
        None \<Rightarrow> None
      | Some (Yield v t') \<Rightarrow> Some (Yield v (Generator Suspended s (Some t')))
      | Some (Done t') \<Rightarrow> flatten_loop nxt inxt s None
      | Some (Throw e t') \<Rightarrow> Some (Throw e (Generator Completed s (Some t'))))"
  by (subst flatten_loop.simps) simp

lemma flatten_loop_None:
  "flatten_loop nxt inxt s None =
     (case nxt s of
        None \<Rightarrow> None
      | Some (Done s') \<Rightarrow> Some (Done (Generator Completed s' None))
      | Some (Throw e s') \<Rightarrow> Some (Throw e (Generator Completed s' None))
      | Some (Yield inner s') \<Rightarrow> flatten_loop nxt inxt s' (Some inner))"
  by (subst flatten_loop.simps) simp

lemma flatten_drain_inner:
  "drain (flatten_next nxt array_next) (Generator Suspended s (Some (ArrayIterator ys j))) acc =
   drain (flatten_next nxt array_next) (Generator Suspended s None) (acc @ ys)"
proof (induction ys arbitrary: j acc)
  case Nil
  let ?N = "flatten_next nxt array_next"
  have step: "?N (Generator Suspended s (Some (ArrayIterator [] j))) = ?N (Generator Suspended s None)"
    by (simp add: flatten_loop_Some)
  show ?case
    unfolding drain_same [of ?N, OF step] by simp
next
  case (Cons y ys)
  let ?N = "flatten_next nxt array_next"
  have step: "?N (Generator Suspended s (Some (ArrayIterator (y # ys) j)))
      = Some (Yield y (Generator Suspended s (Some (ArrayIterator ys (Suc j)))))"
    by (simp add: flatten_loop_Some)
  show ?case
    unfolding drain_Yield [of ?N, OF step] Cons.IH by simp
qed


lemma flatten_map_drain:
  "drain (flatten_next (map_next array_next fn) array_next)
     (Generator Suspended (Generator Suspended (ArrayIterator xs k) ()) None) acc =
     Some (acc @ concat (map (\<lambda>v. remaining (projr (fn v))) (takeWhile (returns fn) xs)),
           ending fn xs,
           Generator Completed (Generator Completed (stopped (returns fn) xs k) ()) None)"
proof (induction xs arbitrary: k acc)
  case Nil
  show ?case by (simp add: drain_Done flatten_loop_None)
next
  case (Cons x xs)
  let ?N = "flatten_next (map_next array_next fn) array_next"
  show ?case
  proof (cases "fn x")
    case (Inl e)
    then have step: "?N (Generator Suspended (Generator Suspended (ArrayIterator (x # xs) k) ()) None)
        = Some (Throw e (Generator Completed (Generator Completed (ArrayIterator xs (Suc k)) ()) None))"
      by (simp add: flatten_loop_None)
    show ?thesis
      unfolding drain_Throw [of ?N, OF step] using Inl by simp
  next
    case (Inr t)
    obtain ys j where t: "t = ArrayIterator ys j" by (cases t)
    from Inr have step: "?N (Generator Suspended (Generator Suspended (ArrayIterator (x # xs) k) ()) None)
        = ?N (Generator Suspended (Generator Suspended (ArrayIterator xs (Suc k)) ()) (Some t))"
      by (simp add: flatten_loop_None)
    show ?thesis
      unfolding drain_same [of ?N, OF step] t flatten_drain_inner Cons.IH
      using Inr t by simp
  qed
qed










lemma observed_Some: "observed (Some (outs, oc, s)) = Some (outs, oc)"
  by (simp add: observed_def)


lemma filter_loop_same: "nxt s = nxt s' \<Longrightarrow> filter_loop nxt p s = filter_loop nxt p s'"
  by (simp add: filter_loop.simps [of nxt p s] filter_loop.simps [of nxt p s'])

lemma flatten_loop_same:
  "nxt s = nxt s' \<Longrightarrow> flatten_loop nxt inxt s None = flatten_loop nxt inxt s' None"
  by (simp add: flatten_loop_None)



lemma filterMap_collect:
  "drain (filterMap_next array_next fn) (filterMap_gen (array_iter xs)) [] =
     Some (filter loose_neq_null (map (\<lambda>v. projr (fn v)) (takeWhile (returns fn) xs)),
           ending fn xs, Generator Completed (stopped (returns fn) xs 0) ())"
proof -
  let ?N = "filterMap_next array_next fn"
  have start: "?N (Generator Start (ArrayIterator xs 0) ()) = ?N (Generator Suspended (ArrayIterator xs 0) ())"
    by simp
  show ?thesis
    unfolding filterMap_gen_def array_iter_def drain_same [of ?N, OF start] filterMap_drain by simp
qed

lemma takeWhile_collect:
  "drain (takeWhile_next array_next p) (takeWhile_gen (array_iter xs)) [] =
     Some (takeWhile (accepts p) xs,
           (case dropWhile (accepts p) xs of
              [] \<Rightarrow> Returned
            | v # rest \<Rightarrow> (case p v of Inl e \<Rightarrow> Threw e | Inr b \<Rightarrow> Returned)),
           Generator Completed (stopped (accepts p) xs 0) ())"
proof -
  let ?N = "takeWhile_next array_next p"
  have start: "?N (Generator Start (ArrayIterator xs 0) ()) = ?N (Generator Suspended (ArrayIterator xs 0) ())"
    by simp
  show ?thesis
    unfolding takeWhile_gen_def array_iter_def drain_same [of ?N, OF start] takeWhile_drain by simp
qed

lemma dedupe_collect:
  "drain (dedupe_next array_next getKey) (dedupe_gen (array_iter xs)) [] =
     Some (first_per_key (\<lambda>v. projr (getKey v)) {} (takeWhile (returns getKey) xs), ending getKey xs,
           Generator Completed (stopped (returns getKey) xs 0)
             ((\<lambda>v. projr (getKey v)) ` set (takeWhile (returns getKey) xs)))"
proof -
  let ?N = "dedupe_next array_next getKey"
  have start: "?N (Generator Start (ArrayIterator xs 0) {}) = ?N (Generator Suspended (ArrayIterator xs 0) {})"
    by simp
  show ?thesis
    unfolding dedupe_gen_def array_iter_def drain_same [of ?N, OF start] dedupe_drain by simp
qed

lemma flatMap_collect:
  "drain (flatMap_next array_next array_next fn) (flatMap_gen (array_iter xs)) [] =
     Some (concat (map (\<lambda>v. remaining (projr (fn v))) (takeWhile (returns fn) xs)),
           ending fn xs, Generator Completed (stopped (returns fn) xs 0) None)"
proof -
  let ?N = "flatMap_next array_next array_next fn"
  have start: "?N (Generator Start (ArrayIterator xs 0) None) = ?N (Generator Suspended (ArrayIterator xs 0) None)"
    by simp
  show ?thesis
    unfolding flatMap_gen_def array_iter_def drain_same [of ?N, OF start] flatMap_drain by simp
qed


lemma flatten_map_collect:
  "drain (flatten_next (map_next array_next fn) array_next) (flatten_gen (map_gen (array_iter xs))) [] =
     Some (concat (map (\<lambda>v. remaining (projr (fn v))) (takeWhile (returns fn) xs)),
           ending fn xs,
           Generator Completed (Generator Completed (stopped (returns fn) xs 0) ()) None)"
proof -
  let ?N = "flatten_next (map_next array_next fn) array_next"
  have start: "?N (Generator Start (Generator Start (ArrayIterator xs 0) ()) None)
      = ?N (Generator Suspended (Generator Suspended (ArrayIterator xs 0) ()) None)"
    by (simp add: flatten_loop_same)
  show ?thesis
    unfolding flatten_gen_def map_gen_def array_iter_def drain_same [of ?N, OF start]
      flatten_map_drain
    by simp
qed





lemma takeWhile_all: "takeWhile (\<lambda>v. True) xs = xs"
  by (induction xs) simp_all

lemma dropWhile_all: "dropWhile (\<lambda>v. True) xs = []"
  by (induction xs) simp_all

lemma list_case_const: "(case l of [] \<Rightarrow> c | v # rest \<Rightarrow> c) = c"
  by (cases l) simp_all

lemma remaining_array_iter: "remaining (array_iter ys) = ys"
  by (simp add: array_iter_def)

lemma loose_neq_null_iff: "loose_neq_null r = (r \<noteq> JNull \<and> r \<noteq> JUndefined)"
  by (cases r) simp_all

lemma scan_drain_suspended:
  "drain (scan_next array_next (\<lambda>a v. Inr (f a v))) (Generator Suspended (ArrayIterator xs k) a) acc =
     Some (acc @ map (\<lambda>j. foldl f a (take (Suc j) xs)) [0..<length xs], Returned,
           Generator Completed (ArrayIterator [] (Suc (k + length xs))) (foldl f a xs))"
proof (induction xs arbitrary: k a acc)
  case Nil
  show ?case by (simp add: drain_Done)
next
  case (Cons x xs)
  let ?N = "scan_next array_next (\<lambda>a v. Inr (f a v))"
  have step: "?N (Generator Suspended (ArrayIterator (x # xs) k) a)
      = Some (Yield (f a x) (Generator Suspended (ArrayIterator xs (Suc k)) (f a x)))"
    by simp
  show ?case
    unfolding drain_Yield [of ?N, OF step] Cons.IH
    by (simp add: map_upt_Suc del: upt_Suc)
qed

lemma scan_drain_start:
  "drain (scan_next array_next (\<lambda>a v. Inr (f a v))) (Generator Start (ArrayIterator xs k) a) acc =
     Some (acc @ map (\<lambda>j. foldl f a (take j xs)) [0..<Suc (length xs)], Returned,
           Generator Completed (ArrayIterator [] (Suc (k + length xs))) (foldl f a xs))"
proof -
  let ?N = "scan_next array_next (\<lambda>a v. Inr (f a v))"
  have step: "?N (Generator Start (ArrayIterator xs k) a)
      = Some (Yield a (Generator Suspended (ArrayIterator xs k) a))"
    by simp
  show ?thesis
    unfolding drain_Yield [of ?N, OF step] scan_drain_suspended
    by (simp add: map_upt_Suc del: upt_Suc)
qed

lemma dedupe_total:
  "observed (drain (dedupe_next array_next (\<lambda>v. Inr (getKey v))) (dedupe_gen (array_iter xs)) [])
     = Some (first_per_key getKey {} xs, Returned)"
  by (simp add: dedupe_collect observed_Some takeWhile_all dropWhile_all)

















section \<open>The suspending generators over a promoted array\<close>

text \<open>The suspending generators over a promoted array of plain values.\<close>

lemma promoted_next_Nil:
  "promoted_next (promoted [] k) = Some (Done (closed [] (Suc k)))"
  by simp

lemma promoted_next_Cons:
  "promoted_next (promoted (x # xs) k) = Some (Yield x (promoted xs (Suc k)))"
  by simp

lemma promoted_return_promoted: "promoted_return (promoted xs k) = closed xs k"
  by (simp add: array_return_def)

lemma toAsync_start:
  "toAsync_next nxt ret (Generator Start s ()) = toAsync_next nxt ret (Generator Suspended s ())"
  by simp





lemma filterMapAsync_loop_Nil:
  "filterMapAsync_loop promoted_next promoted_return fn (Generator Suspended (ArrayIterator [] k) ())
     = Some (Done (Generator Completed (closed [] (Suc k)) ()))"
  by (subst filterMapAsync_loop.simps) simp

lemma filterMapAsync_loop_Cons:
  "filterMapAsync_loop promoted_next promoted_return fn (Generator Suspended (ArrayIterator (Now x # map Now xs) k) ()) =
     (case awaited fn x of
        Inl e \<Rightarrow> Some (Throw e (Generator Completed (closed xs (Suc k)) ()))
      | Inr r \<Rightarrow>
          if loose_neq_null r then Some (Yield r (Generator Suspended (promoted xs (Suc k)) ()))
          else filterMapAsync_loop promoted_next promoted_return fn (promoted xs (Suc k)))"
  by (subst filterMapAsync_loop.simps) (simp add: array_return_def split: sum.split)

lemma filterMapAsync_drain:
  "drain (filterMapAsync_next promoted_next promoted_return fn)
       (Generator Suspended (promoted xs k) ()) acc =
     Some (acc @ filter loose_neq_null
                   (map (\<lambda>v. projr (awaited fn v)) (takeWhile (returns (awaited fn)) xs)),
           ending (awaited fn) xs, Generator Completed (halted (returns (awaited fn)) xs k) ())"
proof (induction xs arbitrary: k acc)
  case Nil
  show ?case by (simp add: drain_Done filterMapAsync_loop_Nil)
next
  case (Cons x xs)
  let ?N = "filterMapAsync_next promoted_next promoted_return fn"
  show ?case
  proof (cases "awaited fn x")
    case (Inl e)
    then have step: "?N (Generator Suspended (promoted (x # xs) k) ())
        = Some (Throw e (Generator Completed (closed xs (Suc k)) ()))"
      by (simp add: filterMapAsync_loop_Cons)
    show ?thesis
      unfolding drain_Throw [of ?N, OF step] using Inl by simp
  next
    case (Inr r)
    show ?thesis
    proof (cases "loose_neq_null r")
      case True
      with Inr have step: "?N (Generator Suspended (promoted (x # xs) k) ())
          = Some (Yield r (Generator Suspended (promoted xs (Suc k)) ()))"
        by (simp add: filterMapAsync_loop_Cons)
      show ?thesis
        unfolding drain_Yield [of ?N, OF step] Cons.IH using Inr True by simp
    next
      case False
      with Inr have step: "?N (Generator Suspended (promoted (x # xs) k) ())
          = ?N (Generator Suspended (promoted xs (Suc k)) ())"
        by (simp add: filterMapAsync_loop_Cons)
      show ?thesis
        unfolding drain_same [of ?N, OF step] Cons.IH using Inr False by simp
    qed
  qed
qed











lemma plain_array_eq: "plain_array ys = ArrayIterator (map Now ys) 0"
  by (simp add: plain_array_def array_iter_def)















lemma filterMapAsync_loop_same:
  "nxt s = nxt s' \<Longrightarrow> filterMapAsync_loop nxt ret fn s = filterMapAsync_loop nxt ret fn s'"
  by (simp add: filterMapAsync_loop.simps [of nxt ret fn s] filterMapAsync_loop.simps [of nxt ret fn s'])








lemma filterMapAsync_collect:
  "drain (filterMapAsync_next promoted_next promoted_return fn)
       (filterMapAsync_gen (toAsync_gen (plain_array xs))) [] =
     Some (filter loose_neq_null
             (map (\<lambda>v. projr (awaited fn v)) (takeWhile (returns (awaited fn)) xs)),
           ending (awaited fn) xs, Generator Completed (halted (returns (awaited fn)) xs 0) ())"
proof -
  let ?N = "filterMapAsync_next promoted_next promoted_return fn"
  have start: "?N (Generator Start (Generator Start (ArrayIterator (map Now xs) 0) ()) ())
      = ?N (Generator Suspended (promoted xs 0) ())"
    by (simp add: filterMapAsync_loop_same)
  show ?thesis
    unfolding filterMapAsync_gen_def toAsync_gen_def plain_array_eq drain_same [of ?N, OF start]
      filterMapAsync_drain
    by simp
qed






















section \<open>The claims\<close>

text \<open>
  C1. Draining \<^verbatim>\<open>take([1, 2, 3, 4], 2)\<close> delivers \<open>[1, 2]\<close> and leaves the array
  iterator after three pulls, with only \<open>4\<close> still to visit: after the second
  \<^verbatim>\<open>yield\<close> the loop header pulls the third element, and only then the body tests
  \<^verbatim>\<open>count >= n\<close> and breaks, so the third element is consumed and discarded. In
  general a drained \<open>take(s, n)\<close> has made \<open>min n (length s) + 1\<close> pulls (\<open>n\<close> read as
  \<open>0\<close> when negative) and has consumed the element after the \<open>n\<close>-th when there is
  one; \<^verbatim>\<open>take([1], 0)\<close> delivers nothing and consumes the \<open>1\<close>.
\<close>

theorem take_pulls_beyond_nth:
  "drain (take_next array_next 2) (take_gen (array_iter [1, 2, 3, 4 :: int])) [] =
     Some ([1, 2], Returned, Generator Completed (ArrayIterator [4] 3) 2)
   \<and> drain (take_next array_next n) (take_gen (array_iter xs)) [] =
     Some (take (nat n) xs, Returned,
           Generator Completed
             (ArrayIterator (drop (Suc (nat n)) xs) (Suc (min (nat n) (length xs))))
             (int (min (nat n) (length xs))))
   \<and> drain (take_next array_next 0) (take_gen (array_iter [1 :: int])) [] =
     Some ([], Returned, Generator Completed (ArrayIterator [] 1) 0)"
  by (simp add: take_gen_def array_iter_def take_drain_start)

text \<open>
  C5. Collecting \<open>take\<close> of an array gives its first \<open>min n (length xs)\<close> elements in
  order and ends normally, for every integer \<open>n\<close> (\<open>nat n\<close> is \<open>0\<close> for \<open>n \<le> 0\<close>); so
  \<open>take(s, 0)\<close>, \<open>take([], 5)\<close> and \<open>take(s, n)\<close> for every \<open>n \<le> 0\<close> (written
  \<open>- int m\<close>) yield nothing.
\<close>

theorem take_collects_prefix:
  "observed (drain (take_next array_next n) (take_gen (array_iter xs)) [])
     = Some (take (nat n) xs, Returned)
   \<and> length (take (nat n) xs) = min (nat n) (length xs)
   \<and> observed (drain (take_next array_next 0) (take_gen (array_iter xs)) []) = Some ([], Returned)
   \<and> observed (drain (take_next array_next 5) (take_gen (array_iter [])) []) = Some ([], Returned)
   \<and> observed (drain (take_next array_next (- int m)) (take_gen (array_iter xs)) [])
       = Some ([], Returned)"
  by (simp add: take_gen_def array_iter_def take_drain_start observed_def)

text \<open>
  C4. Draining \<open>scan\<close> of an array \<open>xs\<close> with accumulator function \<open>f\<close> and initial value
  \<open>i\<close> delivers the accumulators of the prefixes of \<open>xs\<close> of length
  \<open>0, 1, \<dots>, length xs\<close>: \<open>length xs + 1\<close> elements, the first of which is \<open>i\<close>, also
  when \<open>xs\<close> is empty (\<open>scan([], f, 0)\<close> delivers \<open>[0]\<close>).
\<close>

theorem scan_yields_initial_first:
  "drain (scan_next array_next (\<lambda>a v. Inr (f a v))) (scan_gen (array_iter xs) i) []
     = Some (map (\<lambda>j. foldl f i (take j xs)) [0..<Suc (length xs)], Returned,
             Generator Completed (ArrayIterator [] (Suc (length xs))) (foldl f i xs))
   \<and> length (map (\<lambda>j. foldl f i (take j xs)) [0..<Suc (length xs)]) = length xs + 1
   \<and> hd (map (\<lambda>j. foldl f i (take j xs)) [0..<Suc (length xs)]) = i
   \<and> observed (drain (scan_next array_next (\<lambda>a v. Inr (f a v))) (scan_gen (array_iter []) (0 :: int)) [])
       = Some ([0], Returned)"
  by (simp add: scan_gen_def array_iter_def scan_drain_start observed_def hd_map upt_conv_Cons
        del: upt_Suc)

text \<open>
  C6. Draining \<open>takeWhile\<close> of an array with a predicate \<open>p\<close> delivers the longest prefix
  on which \<open>p\<close> holds and ends normally. The array iterator is left after
  \<open>length (takeWhile p xs) + 1\<close> pulls, the prefix and the one rejected element (or the
  pull that found the array exhausted): the elements after the rejected one are still
  unvisited, and the rejected one is not delivered. A completed generator answers every
  further request with done and leaves the upstream state \<open>s\<close> as it is. On
  \<open>[1, 2, 3, 4, 1]\<close> with \<open>n < 3\<close> the result is \<open>[1, 2]\<close>, after three pulls, with
  \<open>[4, 1]\<close> never examined.
\<close>

theorem takeWhile_longest_prefix:
  "drain (takeWhile_next array_next (\<lambda>v. Inr (p v))) (takeWhile_gen (array_iter xs)) [] =
     Some (takeWhile p xs, Returned,
           Generator Completed
             (ArrayIterator (tl (dropWhile p xs)) (Suc (length (takeWhile p xs)))) ())
   \<and> takeWhile_next nxt q (Generator Completed s ()) = Some (Done (Generator Completed s ()))
   \<and> drain (takeWhile_next array_next (\<lambda>n. Inr (n < 3)))
        (takeWhile_gen (array_iter [1, 2, 3, 4, 1 :: int])) [] =
      Some ([1, 2], Returned, Generator Completed (ArrayIterator [4, 1] 3) ())"
  by (simp add: takeWhile_collect split: list.split)

text \<open>
  C7. Draining \<open>dedupe\<close> of an array delivers, in upstream order, exactly the elements at the
  positions \<open>i\<close> whose key is not the key of an element at an earlier position: the first
  occurrence of every key, whatever the payload of the later ones. On the elements with ids
  \<open>1, 2, 1, 3\<close> the result has the ids \<open>1, 2, 3\<close>, and the first \<open>Alice\<close> is the one kept.
\<close>

theorem dedupe_keeps_first_per_key:
  "observed (drain (dedupe_next array_next (\<lambda>v. Inr (getKey v))) (dedupe_gen (array_iter xs)) [])
     = Some (map (\<lambda>i. xs ! i)
               (filter (\<lambda>i. getKey (xs ! i) \<notin> getKey ` set (take i xs)) [0..<length xs]),
             Returned)
   \<and> observed (drain (dedupe_next array_next (\<lambda>v. Inr (fst v)))
        (dedupe_gen (array_iter
           [(''1'', ''Alice''), (''2'', ''Bob''), (''1'', ''Alice (duplicate)''), (''3'', ''Charlie'')]))
        [])
     = Some ([(''1'', ''Alice''), (''2'', ''Bob''), (''3'', ''Charlie'')], Returned)"
  by (simp add: dedupe_total first_per_key_Cons first_per_key_Nil) (simp add: first_per_key_def)

text \<open>
  C8. For every transform \<open>fn\<close> (returning an array iterator, or throwing),
  \<open>flatMap(s, fn)\<close> and \<open>flatten(map(s, fn))\<close> over an array deliver the same elements and
  end the same way. When \<open>fn\<close> returns the array \<open>f v\<close> for every \<open>v\<close>, the elements are
  \<open>concat (map f xs)\<close>: the inner results in upstream order, an empty one contributing
  nothing.
\<close>

theorem flatMap_is_flatten_of_map:
  "observed (drain (flatMap_next array_next array_next fn) (flatMap_gen (array_iter xs)) [])
     = observed (drain (flatten_next (map_next array_next fn) array_next)
         (flatten_gen (map_gen (array_iter xs))) [])
   \<and> observed (drain (flatMap_next array_next array_next (\<lambda>v. Inr (array_iter (f v))))
        (flatMap_gen (array_iter xs)) [])
     = Some (concat (map f xs), Returned)
   \<and> observed (drain (flatMap_next array_next array_next (\<lambda>n. Inr (array_iter (if n = 0 then [] else [n, n]))))
        (flatMap_gen (array_iter [2, 0, 1 :: nat])) [])
     = Some ([2, 2, 1, 1], Returned)"
  by (simp add: flatMap_collect flatten_map_collect observed_Some remaining_array_iter
        takeWhile_all dropWhile_all)

text \<open>
  C9. \<open>filterMap\<close> and \<open>filterMapAsync\<close> (with a transform returning a plain value or a
  fulfilled promise, over an array of plain values promoted by \<open>toAsync\<close>) deliver, in
  upstream order, the results of the transform that are neither \<^verbatim>\<open>null\<close> nor
  \<^verbatim>\<open>undefined\<close>, unchanged: both are dropped, and the falsy values \<open>0\<close>, the empty
  string and \<^verbatim>\<open>false\<close> are kept.
\<close>

theorem filterMap_drops_null_and_undefined:
  "observed (drain (filterMap_next array_next (\<lambda>v. Inr (f v))) (filterMap_gen (array_iter xs)) [])
     = Some (filter (\<lambda>r. r \<noteq> JNull \<and> r \<noteq> JUndefined) (map f xs), Returned)
   \<and> observed (drain (filterMapAsync_next (toAsync_next array_next array_return)
                        (toAsync_return array_return) (\<lambda>v. Inr (Now (f v))))
        (filterMapAsync_gen (toAsync_gen (plain_array xs))) [])
     = Some (filter (\<lambda>r. r \<noteq> JNull \<and> r \<noteq> JUndefined) (map f xs), Returned)
   \<and> observed (drain (filterMapAsync_next (toAsync_next array_next array_return)
                        (toAsync_return array_return) (\<lambda>v. Inr (Later (Fulfilled (f v)))))
        (filterMapAsync_gen (toAsync_gen (plain_array xs))) [])
     = Some (filter (\<lambda>r. r \<noteq> JNull \<and> r \<noteq> JUndefined) (map f xs), Returned)
   \<and> observed (drain (filterMap_next array_next (\<lambda>v. Inr v))
        (filterMap_gen (array_iter
           [JNumber 0, JNull, JString [], JUndefined, JBoolean False, JNumber 5])) [])
     = Some ([JNumber 0, JString [], JBoolean False, JNumber 5], Returned)"
  by (simp add: filterMap_collect filterMapAsync_collect observed_Some await_call_def
        loose_neq_null_iff [abs_def] takeWhile_all dropWhile_all)








end
